theory Spec2Isabelle
  imports Main "HOL-Library.Sublist"
begin

section \<open>JavaScript values used by the server\<close>

text \<open>
  The two variants of the PostgreSQL tool server (\<^verbatim>\<open>index_2.js\<close>, lines 1-550 and
  551-1005) are embedded here. A JavaScript string is the list of its code units; every
  function below looks at one unit at a time, and a unit outside the ASCII letters and
  digits falls outside the class \<^verbatim>\<open>[a-zA-Z0-9]\<close> whatever its value, so the units are
  taken as \<^typ>\<open>char\<close>. A field value of a parsed record is a string or \<^verbatim>\<open>null\<close>
  (\<^term>\<open>None\<close>); a record is the list of its own properties in the order
  \<^verbatim>\<open>Object.keys\<close> enumerates them.
\<close>

type_synonym val = "string option"

type_synonym row = "(string \<times> val) list"

datatype error =
    Error string        \<comment> \<open>\<^verbatim>\<open>new Error(msg)\<close> thrown by the server itself\<close>
  | TypeError string    \<comment> \<open>raised by the JavaScript runtime\<close>
  | PgError string      \<comment> \<open>whatever the connection pool or a statement rejects with\<close>
  | ParseError string   \<comment> \<open>raised by the delimited-text parser\<close>

definition Object_keys :: "row \<Rightarrow> string list" where
  "Object_keys r = map fst r"

definition Object_values :: "row \<Rightarrow> val list" where
  "Object_values r = map snd r"

text \<open>\<^verbatim>\<open>row[col]\<close>; a missing property reads as \<^verbatim>\<open>undefined\<close>, which the driver binds as null.\<close>

definition get_prop :: "row \<Rightarrow> string \<Rightarrow> val" where
  "get_prop r col = (case map_of r col of None \<Rightarrow> None | Some v \<Rightarrow> v)"

text \<open>\<^verbatim>\<open>!x\<close> for an optional string argument: undefined and the empty string are falsy.\<close>

definition falsy :: "string option \<Rightarrow> bool" where
  "falsy x = (case x of None \<Rightarrow> True | Some s \<Rightarrow> s = [])"

definition in_range :: "char \<Rightarrow> char \<Rightarrow> char \<Rightarrow> bool" where
  "in_range lo hi c = ((of_char lo :: nat) \<le> of_char c \<and> (of_char c :: nat) \<le> of_char hi)"

text \<open>The complement of the class \<^verbatim>\<open>[^a-zA-Z0-9]\<close>.\<close>

definition alnum :: "char \<Rightarrow> bool" where
  "alnum c = (in_range CHR ''a'' CHR ''z'' c \<or> in_range CHR ''A'' CHR ''Z'' c
              \<or> in_range CHR ''0'' CHR ''9'' c)"

text \<open>
  \<^verbatim>\<open>toLowerCase\<close> on one unit. Only its action on ASCII matters where the server calls
  it: after the replacement in \<^verbatim>\<open>getTableNameFromFileName\<close> no other unit is left, and
  no unit outside \<^verbatim>\<open>I i D d\<close> lower-cases to a letter of \<^verbatim>\<open>"id"\<close>.
\<close>

definition lower_char :: "char \<Rightarrow> char" where
  "lower_char c = (if in_range CHR ''A'' CHR ''Z'' c then char_of (of_char c + (32::nat)) else c)"

definition toLowerCase :: "string \<Rightarrow> string" where
  "toLowerCase s = map lower_char s"

text \<open>\<^verbatim>\<open>xs.join(sep)\<close>.\<close>

fun join :: "string \<Rightarrow> string list \<Rightarrow> string" where
  "join sep [] = []"
| "join sep [x] = x"
| "join sep (x # y # ys) = x @ sep @ join sep (y # ys)"

text \<open>The decimal text a template literal gives a non-negative integer.\<close>

definition digit :: "nat \<Rightarrow> char" where
  "digit d = char_of (48 + d)"

fun decimal :: "nat \<Rightarrow> string" where
  "decimal n = (if n < 10 then [digit n] else decimal (n div 10) @ [digit (n mod 10)])"

declare decimal.simps [simp del]

section \<open>Table-name derivation (lines 820-825)\<close>

text \<open>
  \<^verbatim>\<open>fileName.split('.')[0]\<close> is the part of the name before its first dot (the whole name
  when it has none); \<^verbatim>\<open>replace(/[^a-zA-Z0-9]/g, '_')\<close> rewrites every other unit.
\<close>

definition baseName :: "string \<Rightarrow> string" where
  "baseName fileName = takeWhile (\<lambda>c. c \<noteq> CHR ''.'') fileName"

definition getTableNameFromFileName :: "string \<Rightarrow> string" where
  "getTableNameFromFileName fileName =
     toLowerCase (map (\<lambda>c. if alnum c then c else CHR ''_'') (baseName fileName))"

text \<open>
  The derivation as the specification words it: strip the extension (the last dot and
  what follows it), map every character outside \<^verbatim>\<open>[A-Za-z0-9]\<close> to an underscore, lower-case.
\<close>

definition strip_extension :: "string \<Rightarrow> string" where
  "strip_extension fileName =
     (if CHR ''.'' \<in> set fileName
      then rev (tl (dropWhile (\<lambda>c. c \<noteq> CHR ''.'') (rev fileName)))
      else fileName)"

definition spec_table_name :: "string \<Rightarrow> string" where
  "spec_table_name fileName =
     toLowerCase (map (\<lambda>c. if alnum c then c else CHR ''_'') (strip_extension fileName))"

section \<open>Statement text (lines 864, 876-886, 896, 903-908, 920-928, 938-942)\<close>

definition testQuery :: "string \<Rightarrow> string" where
  \<open>testQuery tableName = ''SELECT 1 FROM "'' @ tableName @ ''" LIMIT 1''\<close>

definition columnDefinitions :: "string list \<Rightarrow> string" where
  \<open>columnDefinitions columns =
     join '', '' (map (\<lambda>col. if toLowerCase col = ''id''
                               then ''"'' @ col @ ''" TEXT PRIMARY KEY''
                               else ''"'' @ col @ ''" TEXT'') columns)\<close>

definition createTableSQL :: "string \<Rightarrow> string list \<Rightarrow> string" where
  \<open>createTableSQL tableName columns =
     ''CREATE TABLE "'' @ tableName @ ''" ('' @ columnDefinitions columns @ '');''\<close>

definition selectByIdQuery :: "string \<Rightarrow> string" where
  \<open>selectByIdQuery tableName = ''SELECT * FROM "'' @ tableName @ ''" WHERE "id" = $1''\<close>

text \<open>
  \<^verbatim>\<open>cols.map((col, index) => `"${col}" = ${index + 1}`).join(" AND ")\<close>: the template
  writes the column between double quotes, then the number \<^verbatim>\<open>index + 1\<close> in decimal.
\<close>

definition whereClause :: "string list \<Rightarrow> string" where
  \<open>whereClause cols =
     join '' AND '' (map (\<lambda>(index, col). ''"'' @ col @ ''" = '' @ decimal (index + 1))
                         (enumerate 0 cols))\<close>

definition selectQuery :: "string \<Rightarrow> string list \<Rightarrow> string" where
  \<open>selectQuery tableName cols =
     ''SELECT * FROM "'' @ tableName @ ''" WHERE '' @ whereClause cols\<close>

definition setClause :: "string list \<Rightarrow> string" where
  \<open>setClause columnsToUpdate =
     join '', '' (map (\<lambda>(index, col). ''"'' @ col @ ''" = '' @ decimal (index + 2))
                      (enumerate 0 columnsToUpdate))\<close>

definition updateQuery :: "string \<Rightarrow> string list \<Rightarrow> string" where
  \<open>updateQuery tableName columnsToUpdate =
     ''UPDATE "'' @ tableName @ ''" SET '' @ setClause columnsToUpdate @ '' WHERE "id" = $1''\<close>

definition colNames :: "string list \<Rightarrow> string" where
  \<open>colNames cols = join '', '' (map (\<lambda>col. ''"'' @ col @ ''"'') cols)\<close>

definition placeholders :: "string list \<Rightarrow> string" where
  \<open>placeholders cols = join '', '' (map (\<lambda>(index, _). decimal (index + 1)) (enumerate 0 cols))\<close>

definition insertQuery :: "string \<Rightarrow> string list \<Rightarrow> string" where
  \<open>insertQuery tableName cols =
     ''INSERT INTO "'' @ tableName @ ''" ('' @ colNames cols @ '') VALUES (''
       @ placeholders cols @ '')''\<close>

section \<open>The database client and the effects of a handler\<close>

text \<open>
  The connection pool, the PostgreSQL session behind a client and the delimited-text
  parser are external libraries: they are parameters of the model. A statement sent on
  the client moves the database from one state to the next and either fails or returns
  rows. What a handler does is recorded as a trace: each statement with its bound values
  and whether it succeeded, the release of the client, and each warning written to the
  console (the other console lines are left out).
\<close>

record 'db env =
  pool_connect :: "'db \<Rightarrow> error option"
    \<comment> \<open>\<^verbatim>\<open>pool.connect()\<close>: \<^term>\<open>None\<close> when a client is handed out\<close>
  client_query :: "string \<Rightarrow> val list \<Rightarrow> 'db \<Rightarrow> (error + row list) \<times> 'db"
    \<comment> \<open>\<^verbatim>\<open>client.query(text, values)\<close>; no values is the empty list\<close>
  csv_parse :: "string \<Rightarrow> error + row list"
    \<comment> \<open>\<^verbatim>\<open>parse(csvString, {columns: true, ...})\<close>\<close>
  base64_decode :: "string \<Rightarrow> string"
    \<comment> \<open>\<^verbatim>\<open>Buffer.from(fileData, "base64")\<close> read back as UTF-8\<close>

datatype event =
    Query string "val list" bool
  | Release
  | Warn string error

record 'db world =
  db :: 'db
  trace :: "event list"

type_synonym ('db, 'a) io = "'db world \<Rightarrow> (error + 'a) \<times> 'db world"

definition io_return :: "'a \<Rightarrow> ('db, 'a) io" where
  "io_return x w = (Inr x, w)"

definition io_throw :: "error \<Rightarrow> ('db, 'a) io" where
  "io_throw e w = (Inl e, w)"

text \<open>Sequencing: an exception of the first part skips the second.\<close>

definition io_bind :: "('db, 'a) io \<Rightarrow> ('a \<Rightarrow> ('db, 'b) io) \<Rightarrow> ('db, 'b) io" where
  "io_bind m f w = (case m w of (Inl e, w') \<Rightarrow> (Inl e, w') | (Inr x, w') \<Rightarrow> f x w')"

text \<open>\<^verbatim>\<open>try { m } catch (e) { h e }\<close>.\<close>

definition io_catch :: "('db, 'a) io \<Rightarrow> (error \<Rightarrow> ('db, 'a) io) \<Rightarrow> ('db, 'a) io" where
  "io_catch m h w = (case m w of (Inl e, w') \<Rightarrow> h e w' | (Inr x, w') \<Rightarrow> (Inr x, w'))"

text \<open>
  \<^verbatim>\<open>try { m } finally { c }\<close>: the clean-up runs on every exit; the outcome of \<open>m\<close>
  stands unless the clean-up itself throws.
\<close>

definition io_finally :: "('db, 'a) io \<Rightarrow> ('db, unit) io \<Rightarrow> ('db, 'a) io" where
  "io_finally m c w =
     (case m w of (r, w') \<Rightarrow>
        (case c w' of (Inl e, w'') \<Rightarrow> (Inl e, w'') | (Inr _, w'') \<Rightarrow> (r, w'')))"

text \<open>A promise that is not awaited where it is made: its outcome is kept as a value.\<close>

definition io_settle :: "('db, 'a) io \<Rightarrow> ('db, error + 'a) io" where
  "io_settle m w = (case m w of (r, w') \<Rightarrow> (Inr r, w'))"

definition connect :: "'db env \<Rightarrow> ('db, unit) io" where
  "connect pg w = (case pool_connect pg (db w) of Some e \<Rightarrow> (Inl e, w) | None \<Rightarrow> (Inr (), w))"

definition query :: "'db env \<Rightarrow> string \<Rightarrow> val list \<Rightarrow> ('db, row list) io" where
  "query pg text vals w =
     (case client_query pg text vals (db w) of
        (r, d') \<Rightarrow> (r, w\<lparr>db := d', trace := trace w @ [Query text vals (\<not> isl r)]\<rparr>))"

definition release :: "('db, unit) io" where
  "release w = (Inr (), w\<lparr>trace := trace w @ [Release]\<rparr>)"

definition console_warn :: "string \<Rightarrow> error \<Rightarrow> ('db, unit) io" where
  "console_warn msg e w = (Inr (), w\<lparr>trace := trace w @ [Warn msg e]\<rparr>)"

section \<open>What a tool call returns\<close>

record TableSummary =
  created :: nat
  updated :: nat
  skipped :: nat

datatype content =
    RowsJson "row list"                  \<comment> \<open>\<^verbatim>\<open>JSON.stringify(result.rows, null, 2)\<close>\<close>
  | SummaryJson "(string \<times> TableSummary) list"
      \<comment> \<open>\<^verbatim>\<open>JSON.stringify(result, null, 2)\<close> of the summary object, by its own properties\<close>
  | ErrorText string error               \<comment> \<open>\<^verbatim>\<open>`${prefix}${error}`\<close>\<close>

record tool_result =
  content :: content
  isError :: bool

section \<open>The query tool\<close>

text \<open>
  The two awaited calls that open both \<^verbatim>\<open>try\<close> blocks (lines 279-280 and 731-732): the
  read-only transaction is begun, then the caller's text is sent unchanged.
\<close>

definition run_statement :: "'db env \<Rightarrow> string \<Rightarrow> ('db, row list) io" where
  "run_statement pg text =
     io_bind (query pg ''BEGIN TRANSACTION READ ONLY'' []) (\<lambda>_. query pg text [])"

text \<open>
  Variant 1, lines 272-298. The \<^verbatim>\<open>catch\<close> rethrows; the \<^verbatim>\<open>finally\<close> awaits the rollback
  inside its own \<^verbatim>\<open>try\<close>, warns when it fails, then releases the client.
\<close>

definition query_tool_v1 :: "'db env \<Rightarrow> string option \<Rightarrow> ('db, tool_result) io" where
  "query_tool_v1 pg sql =
     (case sql of
        None \<Rightarrow> io_throw (Error ''SQL query is required'')
      | Some text \<Rightarrow>
          if falsy sql then io_throw (Error ''SQL query is required'')
          else
            io_bind (connect pg) (\<lambda>_.
            io_finally
              (io_catch
                 (io_bind (run_statement pg text) (\<lambda>result.
                  io_return \<lparr>content = RowsJson result, isError = False\<rparr>))
                 (\<lambda>error. io_throw error))
              (io_bind
                 (io_catch
                    (io_bind (query pg ''ROLLBACK'' []) (\<lambda>_. io_return ()))
                    (\<lambda>err. console_warn ''Could not roll back transaction:'' err))
                 (\<lambda>_. release))))"

text \<open>
  Variant 2, lines 724-757, from the value \<^verbatim>\<open>sql\<close> that the decoding of the arguments
  (lines 705-722) yields. The inner \<^verbatim>\<open>catch\<close> returns an error result; the \<^verbatim>\<open>finally\<close>
  sends the rollback without awaiting it, releases the client, and the warning of a failed
  rollback comes when its promise settles. The client runs its statements in the order
  they are sent, so the rollback takes its effect where it is sent. The outer \<^verbatim>\<open>catch\<close>
  turns whatever is thrown before or around that into an error result.
\<close>

definition query_tool_v2 :: "'db env \<Rightarrow> string option \<Rightarrow> ('db, tool_result) io" where
  "query_tool_v2 pg sql =
     io_catch
       (case sql of
          None \<Rightarrow> io_throw (Error ''No SQL query provided'')
        | Some text \<Rightarrow>
            if falsy sql then io_throw (Error ''No SQL query provided'')
            else
              io_bind (connect pg) (\<lambda>_.
              io_finally
                (io_catch
                   (io_bind (run_statement pg text) (\<lambda>result.
                    io_return \<lparr>content = RowsJson result, isError = False\<rparr>))
                   (\<lambda>error. io_return
                      \<lparr>content = ErrorText ''Error executing SQL query: '' error,
                       isError = True\<rparr>))
                (io_bind (io_settle (query pg ''ROLLBACK'' [])) (\<lambda>rollback.
                 io_bind release (\<lambda>_.
                 case rollback of
                   Inl error \<Rightarrow> console_warn ''Could not roll back transaction:'' error
                 | Inr _ \<Rightarrow> io_return ())))))
       (\<lambda>error. io_return
          \<lparr>content = ErrorText ''Error preparing SQL query: '' error, isError = True\<rparr>)"

section \<open>Ingestion (lines 758-800 and 836-958)\<close>

text \<open>
  \<^verbatim>\<open>row.hasOwnProperty("id") && row.id !== null && row.id !== ''\<close>. The method is looked
  up on the record itself: a record with a column named \<^verbatim>\<open>hasOwnProperty\<close> holds a string
  or null there, and calling it raises a type error.
\<close>

definition has_id :: "row \<Rightarrow> error + bool" where
  "has_id r =
     (if ''hasOwnProperty'' \<in> set (Object_keys r)
      then Inl (TypeError ''row.hasOwnProperty is not a function'')
      else Inr (case map_of r ''id'' of
                  None \<Rightarrow> False
                | Some None \<Rightarrow> False
                | Some (Some v) \<Rightarrow> v \<noteq> []))"

text \<open>Lines 892-915: the existence lookup, by identifier or across all columns.\<close>

definition lookup_row :: "'db env \<Rightarrow> string \<Rightarrow> row \<Rightarrow> ('db, bool) io" where
  "lookup_row pg tableName r =
     (case has_id r of
        Inl e \<Rightarrow> io_throw e
      | Inr True \<Rightarrow>
          io_bind (query pg (selectByIdQuery tableName) [get_prop r ''id''])
            (\<lambda>selectResult. io_return (0 < length selectResult))
      | Inr False \<Rightarrow>
          io_bind (query pg (selectQuery tableName (Object_keys r)) (Object_values r))
            (\<lambda>selectResult. io_return (0 < length selectResult)))"

text \<open>Lines 917-946: update, skip or insert, and the counter that goes with it.\<close>

definition apply_row ::
  "'db env \<Rightarrow> string \<Rightarrow> row \<Rightarrow> bool \<Rightarrow> TableSummary \<Rightarrow> ('db, TableSummary) io" where
  "apply_row pg tableName r existsInDb s =
     (if existsInDb then
        (case has_id r of
           Inl e \<Rightarrow> io_throw e
         | Inr True \<Rightarrow>
             (let columnsToUpdate = filter (\<lambda>col. col \<noteq> ''id'') (Object_keys r) in
              if 0 < length columnsToUpdate then
                io_bind (query pg (updateQuery tableName columnsToUpdate)
                           (get_prop r ''id'' # map (get_prop r) columnsToUpdate))
                  (\<lambda>_. io_return (s\<lparr>updated := updated s + 1\<rparr>))
              else io_return s)
         | Inr False \<Rightarrow> io_return (s\<lparr>skipped := skipped s + 1\<rparr>))
      else
        io_bind (query pg (insertQuery tableName (Object_keys r)) (Object_values r))
          (\<lambda>_. io_return (s\<lparr>created := created s + 1\<rparr>)))"

definition process_row ::
  "'db env \<Rightarrow> string \<Rightarrow> row \<Rightarrow> TableSummary \<Rightarrow> ('db, TableSummary) io" where
  "process_row pg tableName r s =
     io_bind (lookup_row pg tableName r) (\<lambda>existsInDb. apply_row pg tableName r existsInDb s)"

text \<open>The loop of line 891 over the records, in input order.\<close>

fun process_rows ::
  "'db env \<Rightarrow> string \<Rightarrow> row list \<Rightarrow> TableSummary \<Rightarrow> ('db, TableSummary) io" where
  "process_rows pg tableName [] s w = (Inr s, w)"
| "process_rows pg tableName (r # records) s w =
     (case process_row pg tableName r s w of
        (Inl e, w') \<Rightarrow> (Inl e, w')
      | (Inr s', w') \<Rightarrow> process_rows pg tableName records s' w')"

definition no_rows :: TableSummary where
  "no_rows = \<lparr>created = 0, updated = 0, skipped = 0\<rparr>"

text \<open>Lines 861-870: the probe; any failure of it reads as a missing table.\<close>

definition table_exists :: "'db env \<Rightarrow> string \<Rightarrow> ('db, bool) io" where
  "table_exists pg tableName =
     io_catch (io_bind (query pg (testQuery tableName) []) (\<lambda>_. io_return True))
              (\<lambda>err. io_return False)"

text \<open>
  Lines 856-949, for a batch with a first record: the transaction is begun, the table is
  probed and created from the first record's columns when the probe failed, the records
  are processed, the transaction is committed.
\<close>

text \<open>
  The object \<^verbatim>\<open>summary\<close> that line 957 returns, as the list of its own properties. Line
  856 fills it by assignment, \<^verbatim>\<open>summary[tableName] = {...}\<close>: for the key \<^verbatim>\<open>__proto__\<close>
  that sets the prototype and adds no property, so the counters are still reached through
  \<^verbatim>\<open>summary[tableName]\<close> while the loop runs, but the object returned has no property.
\<close>

definition summary_object :: "string \<Rightarrow> TableSummary \<Rightarrow> (string \<times> TableSummary) list" where
  "summary_object tableName s = (if tableName = ''__proto__'' then [] else [(tableName, s)])"

definition ingest_records ::
  "'db env \<Rightarrow> string \<Rightarrow> row \<Rightarrow> row list \<Rightarrow> ('db, (string \<times> TableSummary) list) io" where
  "ingest_records pg tableName first rest =
     io_bind (query pg ''BEGIN'' []) (\<lambda>_.
     io_bind (table_exists pg tableName) (\<lambda>tableExists.
     io_bind (if \<not> tableExists
              then io_bind (query pg (createTableSQL tableName (Object_keys first)) [])
                     (\<lambda>_. io_return ())
              else io_return ()) (\<lambda>_.
     io_bind (process_rows pg tableName (first # rest) no_rows) (\<lambda>s.
     io_bind (query pg ''COMMIT'' []) (\<lambda>_.
     io_return (summary_object tableName s))))))"

text \<open>
  Lines 836-958. The parser runs inside the \<^verbatim>\<open>try\<close>; a batch without records returns
  at once an object literal with the computed key \<^verbatim>\<open>[tableName]\<close>, which is an own property
  whatever the key; whatever is thrown is answered by a rollback before it is thrown again;
  the client is released on every exit.
\<close>

definition processCsvUpload ::
  "'db env \<Rightarrow> string \<Rightarrow> string \<Rightarrow> ('db, (string \<times> TableSummary) list) io" where
  "processCsvUpload pg csvString tableName =
     io_bind (connect pg) (\<lambda>_.
     io_finally
       (io_catch
          (case csv_parse pg csvString of
             Inl e \<Rightarrow> io_throw e
           | Inr [] \<Rightarrow> io_return [(tableName, no_rows)]
           | Inr (first # rest) \<Rightarrow> ingest_records pg tableName first rest)
          (\<lambda>error. io_bind (query pg ''ROLLBACK'' []) (\<lambda>_. io_throw error)))
       release)"

text \<open>Line 784: \<^verbatim>\<open>tableName || getTableNameFromFileName(fileName)\<close>.\<close>

definition derivedTableName :: "string option \<Rightarrow> string \<Rightarrow> string" where
  "derivedTableName tableName fileName =
     (case tableName of
        None \<Rightarrow> getTableNameFromFileName fileName
      | Some t \<Rightarrow> if falsy tableName then getTableNameFromFileName fileName else t)"

text \<open>The \<^verbatim>\<open>uploadCsv\<close> branch of the handler, from its decoded arguments.\<close>

definition uploadCsv ::
  "'db env \<Rightarrow> string option \<Rightarrow> string option \<Rightarrow> string option \<Rightarrow> ('db, tool_result) io" where
  "uploadCsv pg fileName fileData tableName =
     io_catch
       (case (fileName, fileData) of
          (Some name, Some data) \<Rightarrow>
            if falsy fileName \<or> falsy fileData
            then io_throw (Error ''Missing required parameters: fileName and fileData'')
            else
              io_bind (processCsvUpload pg (base64_decode pg data)
                         (derivedTableName tableName name))
                (\<lambda>result. io_return \<lparr>content = SummaryJson result, isError = False\<rparr>)
        | _ \<Rightarrow> io_throw (Error ''Missing required parameters: fileName and fileData''))
       (\<lambda>error. io_return
          \<lparr>content = ErrorText ''Error processing CSV: '' error, isError = True\<rparr>)"

section \<open>Two small databases to run the handlers on\<close>

text \<open>
  A session replayed from its answers: the state is the list of answers still to come,
  and each statement takes the next one.
\<close>

definition replay :: "row list \<Rightarrow> ((error + row list) list) env" where
  "replay records =
     \<lparr>pool_connect = (\<lambda>_. None),
      client_query = (\<lambda>text vals answers.
         case answers of
           [] \<Rightarrow> (Inl (PgError ''connection lost''), [])
         | a # rest \<Rightarrow> (a, rest)),
      csv_parse = (\<lambda>_. Inr records),
      base64_decode = (\<lambda>s. s)\<rparr>"


definition start :: "'db \<Rightarrow> 'db world" where
  "start d = \<lparr>db = d, trace = []\<rparr>"



text \<open>
  A store that checks the bound values against the placeholders of the text, as the
  extended query protocol does: a statement whose text has not as many \<^verbatim>\<open>$\<close> placeholders
  as it has values is refused. Its table is empty: every accepted statement returns no row.
  The state counts the statements accepted.
\<close>

definition bind_checking_store :: "row list \<Rightarrow> nat env" where
  \<open>bind_checking_store records =
     \<lparr>pool_connect = (\<lambda>_. None),
      client_query = (\<lambda>text vals n.
         if length (filter (\<lambda>c. c = CHR ''$'') text) = length vals
         then (Inr [], Suc n)
         else (Inl (PgError ''bind message supplies values the prepared statement does not require''), n)),
      csv_parse = (\<lambda>_. Inr records),
      base64_decode = (\<lambda>s. s)\<rparr>\<close>



section \<open>Traces\<close>

text \<open>
  A handler extends the trace. On the ingestion path the probe is the one statement whose
  failure is caught; any other failed statement must be the last thing a step sent.
\<close>

definition only_probe_fails :: "string \<Rightarrow> event list \<Rightarrow> bool" where
  "only_probe_fails t evs \<longleftrightarrow> (\<forall>q vs. Query q vs False \<in> set evs \<longrightarrow> q = testQuery t)"

definition stops_at_failure :: "string \<Rightarrow> (error + 'a) \<Rightarrow> event list \<Rightarrow> bool" where
  "stops_at_failure t res evs =
     (case res of Inr _ \<Rightarrow> only_probe_fails t evs
                | Inl _ \<Rightarrow> only_probe_fails t (butlast evs))"

definition extends :: "('db, 'a) io \<Rightarrow> ((error + 'a) \<Rightarrow> event list \<Rightarrow> bool) \<Rightarrow> bool" where
  "extends m Q \<longleftrightarrow>
     (\<forall>w res w'. m w = (res, w') \<longrightarrow> (\<exists>evs. trace w' = trace w @ evs \<and> Q res evs))"

text \<open>A statement that is none of the three that control the transaction.\<close>

definition data_statement :: "event \<Rightarrow> bool" where
  "data_statement ev =
     (case ev of
        Query q vs ok \<Rightarrow> q \<noteq> ''BEGIN'' \<and> q \<noteq> ''COMMIT'' \<and> q \<noteq> ''ROLLBACK''
      | _ \<Rightarrow> False)"

text \<open>A step keeps a property of the database state.\<close>

definition preserves :: "('db, 'a) io \<Rightarrow> ('db \<Rightarrow> bool) \<Rightarrow> bool" where
  "preserves m I \<longleftrightarrow> (\<forall>w res w'. I (db w) \<and> m w = (res, w') \<longrightarrow> I (db w'))"

text \<open>The statements between \<^verbatim>\<open>BEGIN\<close> and \<^verbatim>\<open>COMMIT\<close> (lines 861-947).\<close>

definition batch_body :: "'db env \<Rightarrow> string \<Rightarrow> row \<Rightarrow> row list \<Rightarrow> ('db, TableSummary) io" where
  "batch_body pg tableName first rest =
     io_bind (table_exists pg tableName) (\<lambda>tableExists.
     io_bind (if \<not> tableExists
              then io_bind (query pg (createTableSQL tableName (Object_keys first)) [])
                     (\<lambda>_. io_return ())
              else io_return ()) (\<lambda>_.
     process_rows pg tableName (first # rest) no_rows))"


text \<open>
  A store with transactions over any semantics \<open>step\<close> of the single statements: the state is
  what is committed and, while a transaction is open, its working copy. \<^verbatim>\<open>BEGIN\<close> opens a copy,
  \<^verbatim>\<open>COMMIT\<close> makes it the committed state, \<^verbatim>\<open>ROLLBACK\<close> drops it; any other text runs on the
  copy, or on the committed state when no transaction is open.
\<close>

definition transactional ::
  "(string \<Rightarrow> val list \<Rightarrow> 'd \<Rightarrow> (error + row list) \<times> 'd) \<Rightarrow> row list \<Rightarrow> ('d \<times> 'd option) env" where
  "transactional step records =
     \<lparr>pool_connect = (\<lambda>_. None),
      client_query = (\<lambda>text vals (committed, working).
         if text = ''BEGIN'' then
           (Inr [], (committed, Some (case working of None \<Rightarrow> committed | Some x \<Rightarrow> x)))
         else if text = ''COMMIT'' then
           (Inr [], (case working of None \<Rightarrow> committed | Some x \<Rightarrow> x, None))
         else if text = ''ROLLBACK'' then (Inr [], (committed, None))
         else (case working of
                 Some x \<Rightarrow> (case step text vals x of (r, x') \<Rightarrow> (r, (committed, Some x')))
               | None \<Rightarrow> (case step text vals committed of (r, c') \<Rightarrow> (r, (c', None))))),
      csv_parse = (\<lambda>_. Inr records),
      base64_decode = (\<lambda>s. s)\<rparr>"

text \<open>A transaction is open on the committed state \<open>c\<close>.\<close>

definition open_on :: "'d \<Rightarrow> 'd \<times> 'd option \<Rightarrow> bool" where
  "open_on c d \<longleftrightarrow> fst d = c \<and> snd d \<noteq> None"

section \<open>Unfolding the model\<close>

lemma decimal_small:
  "decimal (Suc 0) = ''1''" "decimal (Suc (Suc 0)) = ''2''"
  "decimal (Suc (Suc (Suc 0))) = ''3''"
  "decimal 1 = ''1''" "decimal 2 = ''2''" "decimal 3 = ''3''"
  by code_simp+

lemmas io_defs = io_return_def io_throw_def io_bind_def io_catch_def io_finally_def
  io_settle_def connect_def query_def release_def console_warn_def

lemmas stmt_defs = testQuery_def createTableSQL_def columnDefinitions_def selectByIdQuery_def
  whereClause_def selectQuery_def setClause_def updateQuery_def colNames_def placeholders_def
  insertQuery_def enumerate_eq_zip decimal_small toLowerCase_def lower_char_def
  in_range_def

lemmas ingest_defs = has_id_def lookup_row_def apply_row_def process_row_def table_exists_def
  ingest_records_def processCsvUpload_def no_rows_def Object_keys_def Object_values_def get_prop_def

section \<open>The derived table name\<close>

lemma of_char_lower:
  "in_range CHR ''A'' CHR ''Z'' c \<Longrightarrow> (of_char (lower_char c) :: nat) = of_char c + 32"
  by (simp add: lower_char_def in_range_def)

lemma lower_alnum_range:
  "in_range CHR ''a'' CHR ''z'' (lower_char (if alnum c then c else CHR ''_''))
   \<or> in_range CHR ''0'' CHR ''9'' (lower_char (if alnum c then c else CHR ''_''))
   \<or> lower_char (if alnum c then c else CHR ''_'') = CHR ''_''"
proof (cases "in_range CHR ''A'' CHR ''Z'' c")
  case True
  then show ?thesis using of_char_lower [OF True]
    by (simp add: alnum_def in_range_def)
next
  case False
  then show ?thesis
    by (auto simp add: alnum_def lower_char_def in_range_def)
qed

lemma in_range_enum:
  assumes "in_range lo hi c"
  shows "c \<in> set (map char_of [of_char lo ..< Suc (of_char hi)])"
proof -
  have "(of_char c :: nat) \<in> set [of_char lo ..< Suc (of_char hi)]"
    using assms unfolding in_range_def set_upt atLeastLessThan_iff less_Suc_eq_le by simp
  then have "char_of (of_char c :: nat) \<in> set (map char_of [of_char lo ..< Suc (of_char hi)])"
    by (simp only: set_map image_eqI)
  then show ?thesis by simp
qed

lemma lower_letters:
  "map char_of [of_char CHR ''a'' ..< Suc (of_char CHR ''z'')] = ''abcdefghijklmnopqrstuvwxyz''"
  by code_simp

lemma digits:
  "map char_of [of_char CHR ''0'' ..< Suc (of_char CHR ''9'')] = ''0123456789''"
  by code_simp

lemma in_lower_letters:
  "in_range CHR ''a'' CHR ''z'' x \<Longrightarrow> x \<in> set ''abcdefghijklmnopqrstuvwxyz''"
  using in_range_enum [of "CHR ''a''" "CHR ''z''" x] unfolding lower_letters .

lemma in_digits: "in_range CHR ''0'' CHR ''9'' x \<Longrightarrow> x \<in> set ''0123456789''"
  using in_range_enum [of "CHR ''0''" "CHR ''9''" x] unfolding digits .

lemma lower_alnum_cases:
  "lower_char (if alnum c then c else CHR ''_'')
     \<in> set ''abcdefghijklmnopqrstuvwxyz0123456789_''"
proof -
  define x where "x = lower_char (if alnum c then c else CHR ''_'')"
  have parts: "set ''abcdefghijklmnopqrstuvwxyz0123456789_''
      = set ''abcdefghijklmnopqrstuvwxyz'' \<union> set ''0123456789'' \<union> {CHR ''_''}"
    by auto
  consider "in_range CHR ''a'' CHR ''z'' x" | "in_range CHR ''0'' CHR ''9'' x" | "x = CHR ''_''"
    using lower_alnum_range [of c] unfolding x_def by blast
  then have "x \<in> set ''abcdefghijklmnopqrstuvwxyz'' \<union> set ''0123456789'' \<union> {CHR ''_''}"
  proof cases
    case 1 then show ?thesis using in_lower_letters by blast
  next
    case 2 then show ?thesis using in_digits by blast
  next
    case 3 then show ?thesis by blast
  qed
  then show ?thesis unfolding x_def parts .
qed

text \<open>
  Claim C10. Whatever the file name, the name that \<open>getTableNameFromFileName\<close> derives is
  made of lower-case letters, digits and underscores only; in particular it holds no double
  quote, no single quote and no semicolon.
\<close>

theorem getTableNameFromFileName_charset:
  "set (getTableNameFromFileName fileName) \<subseteq> set ''abcdefghijklmnopqrstuvwxyz0123456789_''
   \<and> CHR 0x22 \<notin> set (getTableNameFromFileName fileName)
   \<and> CHR 0x27 \<notin> set (getTableNameFromFileName fileName)
   \<and> CHR '';'' \<notin> set (getTableNameFromFileName fileName)"
proof -
  have sub: "set (getTableNameFromFileName fileName)
               \<subseteq> set ''abcdefghijklmnopqrstuvwxyz0123456789_''"
    unfolding getTableNameFromFileName_def toLowerCase_def
    using lower_alnum_cases by (auto simp del: set_simps)
  have "CHR 0x22 \<notin> set ''abcdefghijklmnopqrstuvwxyz0123456789_''"
       "CHR 0x27 \<notin> set ''abcdefghijklmnopqrstuvwxyz0123456789_''"
       "CHR '';'' \<notin> set ''abcdefghijklmnopqrstuvwxyz0123456789_''"
    by simp_all
  with sub show ?thesis by blast
qed

text \<open>The example of the specification, and the names on which code and wording agree.\<close>

lemma my_report: "derivedTableName None ''My Report.csv'' = ''my_report''"
  by code_simp

lemma strip_extension_one_dot:
  assumes "CHR ''.'' \<notin> set stem" and "CHR ''.'' \<notin> set ext"
  shows "strip_extension (stem @ CHR ''.'' # ext) = stem"
proof -
  have "\<forall>x \<in> set (rev ext). x \<noteq> CHR ''.''" using assms(2) by auto
  then have "dropWhile (\<lambda>c. c \<noteq> CHR ''.'') (rev ext @ CHR ''.'' # rev stem)
               = CHR ''.'' # rev stem"
    by (simp add: dropWhile_append3)
  then show ?thesis by (simp add: strip_extension_def)
qed

lemma baseName_one_dot:
  assumes "CHR ''.'' \<notin> set stem"
  shows "baseName (stem @ CHR ''.'' # ext) = stem"
proof -
  have "\<forall>x \<in> set stem. x \<noteq> CHR ''.''" using assms by auto
  then show ?thesis by (simp add: baseName_def takeWhile_tail)
qed

lemma one_dot_agrees:
  assumes "CHR ''.'' \<notin> set stem" and "CHR ''.'' \<notin> set ext"
  shows "getTableNameFromFileName (stem @ CHR ''.'' # ext)
           = spec_table_name (stem @ CHR ''.'' # ext)"
  using strip_extension_one_dot [OF assms] baseName_one_dot [OF assms(1)]
  by (simp add: getTableNameFromFileName_def spec_table_name_def)

lemma no_dot_agrees:
  assumes "CHR ''.'' \<notin> set fileName"
  shows "getTableNameFromFileName fileName = spec_table_name fileName"
proof -
  have "\<forall>x \<in> set fileName. x \<noteq> CHR ''.''" using assms by auto
  then have "baseName fileName = fileName"
    unfolding baseName_def by (simp add: takeWhile_eq_all_conv)
  moreover have "strip_extension fileName = fileName"
    using assms by (simp add: strip_extension_def)
  ultimately show ?thesis
    by (simp only: getTableNameFromFileName_def spec_table_name_def)
qed

text \<open>
  Claim C6. The table name is to be the file name without its extension, every character
  outside the letters and digits replaced by an underscore, in lower case. The code cuts the
  name at its first dot instead: of \<^verbatim>\<open>sales.2024.csv\<close> it keeps \<^verbatim>\<open>sales\<close>, where stripping
  the extension gives \<^verbatim>\<open>sales_2024\<close>.
\<close>

theorem derived_name_cut_at_first_dot:
  "derivedTableName None ''sales.2024.csv'' = ''sales''
   \<and> spec_table_name ''sales.2024.csv'' = ''sales_2024''"
  by code_simp

section \<open>The query guard\<close>



lemma query_tool_v1_run:
  assumes "text \<noteq> []" and "pool_connect pg (db w) = None"
      and "run_statement pg text w = (a, wm)"
      and "client_query pg ''ROLLBACK'' [] (db wm) = (rb, d)"
  shows "query_tool_v1 pg (Some text) w =
           (case a of Inl e \<Rightarrow> Inl e
                    | Inr rows \<Rightarrow> Inr \<lparr>content = RowsJson rows, isError = False\<rparr>,
            \<lparr>db = d,
             trace = trace wm @ [Query ''ROLLBACK'' [] (\<not> isl rb)]
                      @ (case rb of Inl e \<Rightarrow> [Warn ''Could not roll back transaction:'' e]
                                  | Inr _ \<Rightarrow> [])
                      @ [Release]\<rparr>)"
  using assms
  by (cases a; cases rb) (simp_all add: query_tool_v1_def falsy_def io_defs)

lemma query_tool_v2_run:
  assumes "text \<noteq> []" and "pool_connect pg (db w) = None"
      and "run_statement pg text w = (a, wm)"
      and "client_query pg ''ROLLBACK'' [] (db wm) = (rb, d)"
  shows "query_tool_v2 pg (Some text) w =
           (Inr (case a of
                   Inl e \<Rightarrow> \<lparr>content = ErrorText ''Error executing SQL query: '' e,
                              isError = True\<rparr>
                 | Inr rows \<Rightarrow> \<lparr>content = RowsJson rows, isError = False\<rparr>),
            \<lparr>db = d,
             trace = trace wm @ [Query ''ROLLBACK'' [] (\<not> isl rb), Release]
                      @ (case rb of Inl e \<Rightarrow> [Warn ''Could not roll back transaction:'' e]
                                  | Inr _ \<Rightarrow> [])\<rparr>)"
  using assms
  by (cases a; cases rb) (simp_all add: query_tool_v2_def falsy_def io_defs)

lemma query_tool_v2_returns: "\<not> isl (fst (query_tool_v2 pg sql w))"
proof (cases "falsy sql \<or> pool_connect pg (db w) \<noteq> None")
  case True
  then show ?thesis
    by (auto simp add: query_tool_v2_def falsy_def io_defs split: option.splits)
next
  case False
  then obtain stmt where t: "sql = Some stmt" "stmt \<noteq> []" and c: "pool_connect pg (db w) = None"
    by (auto simp add: falsy_def split: option.splits)
  obtain a wm where a: "run_statement pg stmt w = (a, wm)"
    by (cases "run_statement pg stmt w")
  obtain rb d where r: "client_query pg ''ROLLBACK'' [] (db wm) = (rb, d)"
    by (cases "client_query pg ''ROLLBACK'' [] (db wm)")
  from t c a r show ?thesis
    by (cases a; cases rb) (simp_all add: query_tool_v2_def falsy_def io_defs)
qed

lemma query_tool_no_client:
  assumes "falsy sql \<or> pool_connect pg (db w) \<noteq> None"
  shows "snd (query_tool_v1 pg sql w) = w" and "snd (query_tool_v2 pg sql w) = w"
  using assms
  by (auto simp add: query_tool_v1_def query_tool_v2_def falsy_def io_defs split: option.splits)





text \<open>
  Claim C4, as the code has it. When the statement of the query tool fails (or the opening
  of its transaction does), variant 2 returns a result whose text carries the error and whose
  error flag is set, and no call of variant 2 throws at all; variant 1 rethrows the error to
  its caller once the rollback is sent and the client released.
\<close>

theorem failed_statement_result:
  assumes "stmt \<noteq> []" and "pool_connect pg (db w) = None"
      and "run_statement pg stmt w = (Inl e, wm)"
  shows "fst (query_tool_v2 pg (Some stmt) w)
           = Inr \<lparr>content = ErrorText ''Error executing SQL query: '' e, isError = True\<rparr>
       \<and> fst (query_tool_v1 pg (Some stmt) w) = Inl e
       \<and> \<not> isl (fst (query_tool_v2 pg sql w'))
       \<and> (\<exists>b warning. trace (snd (query_tool_v1 pg (Some stmt) w))
              = trace wm @ [Query ''ROLLBACK'' [] b] @ warning @ [Release]
            \<and> (warning = [] \<or> (\<exists>e'. warning = [Warn ''Could not roll back transaction:'' e'])))"
proof -
  obtain rb d where r: "client_query pg ''ROLLBACK'' [] (db wm) = (rb, d)"
    by (cases "client_query pg ''ROLLBACK'' [] (db wm)")
  have "\<exists>b warning. trace (snd (query_tool_v1 pg (Some stmt) w))
              = trace wm @ [Query ''ROLLBACK'' [] b] @ warning @ [Release]
            \<and> (warning = [] \<or> (\<exists>e'. warning = [Warn ''Could not roll back transaction:'' e']))"
    using query_tool_v1_run [OF assms r] by (cases rb) auto
  with query_tool_v1_run [OF assms r] query_tool_v2_run [OF assms r] query_tool_v2_returns
  show ?thesis by simp
qed

theorem failed_statement_result_witness:
  "fst (query_tool_v2 (replay []) (Some ''SELECT * FROM nope'')
          (start [Inr [], Inl (PgError ''relation nope does not exist''), Inr []]))
     = Inr \<lparr>content = ErrorText ''Error executing SQL query: ''
                          (PgError ''relation nope does not exist''),
             isError = True\<rparr>
   \<and> fst (query_tool_v1 (replay []) (Some ''SELECT * FROM nope'')
          (start [Inr [], Inl (PgError ''relation nope does not exist''), Inr []]))
     = Inl (PgError ''relation nope does not exist'')
   \<and> trace (snd (query_tool_v1 (replay []) (Some ''SELECT * FROM nope'')
          (start [Inr [], Inl (PgError ''relation nope does not exist''), Inr []])))
     = [Query ''BEGIN TRANSACTION READ ONLY'' [] True,
        Query ''SELECT * FROM nope'' [] False,
        Query ''ROLLBACK'' [] True,
        Release]"
proof -
  let ?w = "start [Inr [], Inl (PgError ''relation nope does not exist''), Inr []]"
  have h1: "''SELECT * FROM nope'' \<noteq> []" by simp
  have h2: "pool_connect (replay []) (db ?w) = None" by (simp add: replay_def)
  have h3: "run_statement (replay []) ''SELECT * FROM nope'' ?w
              = (Inl (PgError ''relation nope does not exist''),
                 \<lparr>db = [Inr []],
                  trace = [Query ''BEGIN TRANSACTION READ ONLY'' [] True,
                           Query ''SELECT * FROM nope'' [] False]\<rparr>)"
    by (simp add: run_statement_def io_defs replay_def start_def)
  have h4: "query_tool_v1 (replay []) (Some ''SELECT * FROM nope'') ?w
              = (Inl (PgError ''relation nope does not exist''),
                 \<lparr>db = [],
                  trace = [Query ''BEGIN TRANSACTION READ ONLY'' [] True,
                           Query ''SELECT * FROM nope'' [] False,
                           Query ''ROLLBACK'' [] True,
                           Release]\<rparr>)"
    by (simp add: query_tool_v1_def run_statement_def falsy_def io_defs replay_def start_def)
  from failed_statement_result [OF h1 h2 h3] h4 show ?thesis by simp
qed

theorem variant_1_throws_statement_error:
  "fst (query_tool_v1 (replay []) (Some ''DROP TABLE nope'')
          (start [Inr [], Inl (PgError ''cannot execute DROP TABLE in a read-only transaction''),
                  Inr []]))
     = Inl (PgError ''cannot execute DROP TABLE in a read-only transaction'')"
  by (simp add: query_tool_v1_def run_statement_def falsy_def io_defs replay_def start_def)

section \<open>How ingestion extends the trace\<close>

lemma only_probe_fails_Nil [simp]: "only_probe_fails t []"
  by (simp add: only_probe_fails_def)

lemma only_probe_fails_append [simp]:
  "only_probe_fails t (xs @ ys) \<longleftrightarrow> only_probe_fails t xs \<and> only_probe_fails t ys"
  by (auto simp add: only_probe_fails_def)

lemma only_probe_fails_butlast: "only_probe_fails t xs \<Longrightarrow> only_probe_fails t (butlast xs)"
  by (auto simp add: only_probe_fails_def dest: in_set_butlastD)

lemma only_probe_fails_butlast_append:
  assumes "only_probe_fails t xs" and "only_probe_fails t (butlast ys)"
  shows "only_probe_fails t (butlast (xs @ ys))"
  using assms by (cases "ys = []") (simp_all add: butlast_append only_probe_fails_butlast)

lemma extendsI:
  assumes "\<And>w res w'. m w = (res, w') \<Longrightarrow> \<exists>evs. trace w' = trace w @ evs \<and> Q res evs"
  shows "extends m Q"
  using assms unfolding extends_def by blast

lemma extendsD:
  assumes "extends m Q" and "m w = (res, w')"
  obtains evs where "trace w' = trace w @ evs" and "Q res evs"
  using assms unfolding extends_def by blast

lemma extends_return: "extends (io_return x) (stops_at_failure t)"
  by (rule extendsI) (simp add: io_return_def stops_at_failure_def)

lemma extends_throw: "extends (io_throw e) (stops_at_failure t)"
  by (rule extendsI) (auto simp add: io_throw_def stops_at_failure_def)

lemma extends_query: "extends (query pg q vs) (stops_at_failure t)"
proof (rule extendsI)
  fix w res w'
  assume run: "query pg q vs w = (res, w')"
  obtain r d where c: "client_query pg q vs (db w) = (r, d)"
    by (cases "client_query pg q vs (db w)")
  with run have "trace w' = trace w @ [Query q vs (\<not> isl r)]" and "res = r"
    by (auto simp add: query_def)
  moreover have "stops_at_failure t r [Query q vs (\<not> isl r)]"
    by (cases r) (simp_all add: stops_at_failure_def only_probe_fails_def)
  ultimately show "\<exists>evs. trace w' = trace w @ evs \<and> stops_at_failure t res evs"
    by blast
qed

lemma extends_bind:
  assumes m: "extends m (stops_at_failure t)"
      and f: "\<And>x. extends (f x) (stops_at_failure t)"
  shows "extends (io_bind m f) (stops_at_failure t)"
proof (rule extendsI)
  fix w res w'
  assume run: "io_bind m f w = (res, w')"
  obtain r1 w1 where m1: "m w = (r1, w1)" by (cases "m w")
  from extendsD [OF m m1] obtain evs1
    where t1: "trace w1 = trace w @ evs1" and q1: "stops_at_failure t r1 evs1" .
  show "\<exists>evs. trace w' = trace w @ evs \<and> stops_at_failure t res evs"
  proof (cases r1)
    case (Inl e)
    with run m1 have "res = Inl e" "w' = w1" by (simp_all add: io_bind_def)
    with t1 q1 Inl show ?thesis by (auto simp add: stops_at_failure_def)
  next
    case (Inr x)
    with run m1 have f1: "f x w1 = (res, w')" by (simp add: io_bind_def)
    from extendsD [OF f f1] obtain evs2
      where t2: "trace w' = trace w1 @ evs2" and q2: "stops_at_failure t res evs2" .
    from q1 Inr have ok1: "only_probe_fails t evs1" by (simp add: stops_at_failure_def)
    have "stops_at_failure t res (evs1 @ evs2)"
      using ok1 q2 by (cases res) (simp_all add: stops_at_failure_def only_probe_fails_butlast_append)
    with t1 t2 show ?thesis by auto
  qed
qed

lemma extends_table_exists: "extends (table_exists pg t) (stops_at_failure t)"
proof (rule extendsI)
  fix w res w'
  assume run: "table_exists pg t w = (res, w')"
  obtain r d where c: "client_query pg (testQuery t) [] (db w) = (r, d)"
    by (cases "client_query pg (testQuery t) [] (db w)")
  with run have "trace w' = trace w @ [Query (testQuery t) [] (\<not> isl r)]" and "\<not> isl res"
    by (cases r; auto simp add: table_exists_def io_defs)+
  moreover have "only_probe_fails t [Query (testQuery t) [] (\<not> isl r)]"
    by (simp add: only_probe_fails_def)
  ultimately show "\<exists>evs. trace w' = trace w @ evs \<and> stops_at_failure t res evs"
    by (cases res) (auto simp add: stops_at_failure_def)
qed

lemma extends_lookup_row: "extends (lookup_row pg t r) (stops_at_failure t)"
  unfolding lookup_row_def
  by (auto split: sum.splits bool.splits intro!: extends_bind extends_query extends_return extends_throw)

lemma extends_apply_row: "extends (apply_row pg t r b s) (stops_at_failure t)"
  unfolding apply_row_def Let_def
  by (auto split: sum.splits bool.splits intro!: extends_bind extends_query extends_return extends_throw)

lemma extends_process_row: "extends (process_row pg t r s) (stops_at_failure t)"
  unfolding process_row_def
  by (intro extends_bind extends_lookup_row extends_apply_row)

lemma process_rows_bind:
  "process_rows pg t (r # rs) s = io_bind (process_row pg t r s) (\<lambda>s'. process_rows pg t rs s')"
  by (rule ext) (simp add: io_bind_def split: prod.splits sum.splits)

lemma extends_process_rows: "extends (process_rows pg t rs s) (stops_at_failure t)"
proof (induction rs arbitrary: s)
  case Nil
  have "process_rows pg t [] s = io_return s" by (rule ext) (simp add: io_return_def)
  then show ?case by (simp add: extends_return)
next
  case (Cons r rs)
  show ?case unfolding process_rows_bind
    by (intro extends_bind extends_process_row Cons.IH)
qed

lemma each_event_return: "extends (io_return x) (\<lambda>_ evs. \<forall>ev \<in> set evs. P ev)"
  by (rule extendsI) (simp add: io_return_def)

lemma each_event_throw: "extends (io_throw e) (\<lambda>_ evs. \<forall>ev \<in> set evs. P ev)"
  by (rule extendsI) (simp add: io_throw_def)

lemma each_event_query:
  assumes "\<And>b. P (Query q vs b)"
  shows "extends (query pg q vs) (\<lambda>_ evs. \<forall>ev \<in> set evs. P ev)"
proof (rule extendsI)
  fix w res w'
  assume run: "query pg q vs w = (res, w')"
  obtain r d where "client_query pg q vs (db w) = (r, d)"
    by (cases "client_query pg q vs (db w)")
  with run have "trace w' = trace w @ [Query q vs (\<not> isl r)]"
    by (auto simp add: query_def)
  with assms show "\<exists>evs. trace w' = trace w @ evs \<and> (\<forall>ev \<in> set evs. P ev)"
    by auto
qed

lemma each_event_bind:
  assumes m: "extends m (\<lambda>_ evs. \<forall>ev \<in> set evs. P ev)"
      and f: "\<And>x. extends (f x) (\<lambda>_ evs. \<forall>ev \<in> set evs. P ev)"
  shows "extends (io_bind m f) (\<lambda>_ evs. \<forall>ev \<in> set evs. P ev)"
proof (rule extendsI)
  fix w res w'
  assume run: "io_bind m f w = (res, w')"
  obtain r1 w1 where m1: "m w = (r1, w1)" by (cases "m w")
  from extendsD [OF m m1] obtain evs1
    where t1: "trace w1 = trace w @ evs1" and p1: "\<forall>ev \<in> set evs1. P ev" .
  show "\<exists>evs. trace w' = trace w @ evs \<and> (\<forall>ev \<in> set evs. P ev)"
  proof (cases r1)
    case (Inl e)
    with run m1 have "w' = w1" by (simp add: io_bind_def)
    with t1 p1 show ?thesis by auto
  next
    case (Inr x)
    with run m1 have f1: "f x w1 = (res, w')" by (simp add: io_bind_def)
    from extendsD [OF f f1] obtain evs2
      where "trace w' = trace w1 @ evs2" and "\<forall>ev \<in> set evs2. P ev" .
    with t1 p1 have "trace w' = trace w @ (evs1 @ evs2)" and "\<forall>ev \<in> set (evs1 @ evs2). P ev"
      by auto
    then show ?thesis by blast
  qed
qed

lemma extends_weaken:
  assumes "extends m Q" and "\<And>res evs. Q res evs \<Longrightarrow> Q' res evs"
  shows "extends m Q'"
  using assms unfolding extends_def by blast

lemma extends_conj:
  assumes "extends m Q" and "extends m Q'"
  shows "extends m (\<lambda>res evs. Q res evs \<and> Q' res evs)"
proof (rule extendsI)
  fix w res w'
  assume run: "m w = (res, w')"
  from extendsD [OF assms(1) run] obtain evs where e: "trace w' = trace w @ evs" "Q res evs" .
  from extendsD [OF assms(2) run] obtain evs' where e': "trace w' = trace w @ evs'" "Q' res evs'" .
  from e(1) e'(1) have "evs' = evs" by simp
  with e e' show "\<exists>evs. trace w' = trace w @ evs \<and> Q res evs \<and> Q' res evs" by blast
qed


text \<open>No statement of a batch has the text of a statement that controls the transaction.\<close>

lemma batch_text_no_control:
  "data_statement (Query (testQuery t) vs ok)"
  "data_statement (Query (createTableSQL t cols) vs ok)"
  "data_statement (Query (selectByIdQuery t) vs ok)"
  "data_statement (Query (selectQuery t cols) vs ok)"
  "data_statement (Query (updateQuery t cols) vs ok)"
  "data_statement (Query (insertQuery t cols) vs ok)"
  by (simp_all add: data_statement_def testQuery_def createTableSQL_def selectByIdQuery_def
      selectQuery_def updateQuery_def insertQuery_def)





lemma io_bind_assoc: "io_bind (io_bind m f) g = io_bind m (\<lambda>x. io_bind (f x) g)"
  by (rule ext) (simp add: io_bind_def split: prod.splits sum.splits)

lemma ingest_records_body:
  "ingest_records pg t first rest =
     io_bind (query pg ''BEGIN'' []) (\<lambda>_.
     io_bind (batch_body pg t first rest) (\<lambda>s.
     io_bind (query pg ''COMMIT'' []) (\<lambda>_.
     io_return (summary_object t s))))"
  unfolding ingest_records_def batch_body_def io_bind_assoc ..

lemma extends_ingest_records:
  "extends (ingest_records pg t first rest) (stops_at_failure t)"
  unfolding ingest_records_def
  by (intro extends_bind extends_query extends_table_exists extends_process_rows extends_return)
     (auto intro!: extends_bind extends_query extends_return)

lemma query_run:
  assumes "client_query pg q vs (db w) = (r, d)"
  shows "query pg q vs w = (r, w\<lparr>db := d, trace := trace w @ [Query q vs (\<not> isl r)]\<rparr>)"
  using assms by (simp add: query_def)

lemma table_exists_run:
  assumes "client_query pg (testQuery t) [] (db w) = (r, d)"
  shows "table_exists pg t w =
           (Inr (\<not> isl r), w\<lparr>db := d, trace := trace w @ [Query (testQuery t) [] (\<not> isl r)]\<rparr>)"
  using assms by (cases r) (simp_all add: table_exists_def io_defs)

lemma processCsvUpload_ingest:
  assumes "pool_connect pg (db w) = None"
      and "csv_parse pg csv = Inr (first # rest)"
      and "ingest_records pg t first rest w = (rb, wb)"
      and "processCsvUpload pg csv t w = (r, w')"
  shows "case rb of
           Inr x \<Rightarrow> r = Inr x \<and> trace w' = trace wb @ [Release]
         | Inl e \<Rightarrow> isl r \<and> (\<exists>b. trace w' = trace wb @ [Query ''ROLLBACK'' [] b, Release])"
proof (cases rb)
  case (Inr x)
  with assms show ?thesis
    by (auto simp add: processCsvUpload_def io_defs)
next
  case (Inl e)
  obtain rr d where rollback: "client_query pg ''ROLLBACK'' [] (db wb) = (rr, d)"
    by (cases "client_query pg ''ROLLBACK'' [] (db wb)")
  with Inl assms have "isl r"
    and "trace w' = trace wb @ [Query ''ROLLBACK'' [] (\<not> isl rr), Release]"
    by (cases rr; auto simp add: processCsvUpload_def io_defs)+
  with Inl show ?thesis by auto
qed

lemma ingest_records_starts:
  assumes "client_query pg ''BEGIN'' [] (db w) = (Inr x, d1)"
      and "ingest_records pg t first rest w = (rb, wb)"
  shows "\<exists>b evs. trace wb = trace w @ Query ''BEGIN'' [] True # Query (testQuery t) [] b # evs"
proof -
  let ?w1 = "w\<lparr>db := d1, trace := trace w @ [Query ''BEGIN'' [] True]\<rparr>"
  let ?K = "\<lambda>tableExists.
     io_bind (if \<not> tableExists
              then io_bind (query pg (createTableSQL t (Object_keys first)) [])
                     (\<lambda>_. io_return ())
              else io_return ()) (\<lambda>_.
     io_bind (process_rows pg t (first # rest) no_rows) (\<lambda>s.
     io_bind (query pg ''COMMIT'' []) (\<lambda>_.
     io_return (summary_object t s))))"
  obtain r1 d2 where probe: "client_query pg (testQuery t) [] (db ?w1) = (r1, d2)"
    by (cases "client_query pg (testQuery t) [] (db ?w1)")
  let ?w2 = "?w1\<lparr>db := d2, trace := trace ?w1 @ [Query (testQuery t) [] (\<not> isl r1)]\<rparr>"
  have K: "extends (?K b) (stops_at_failure t)" for b
    by (intro extends_bind extends_query extends_process_rows extends_return)
       (auto intro!: extends_bind extends_query extends_return)
  have "ingest_records pg t first rest w = ?K (\<not> isl r1) ?w2"
    unfolding ingest_records_def
    using query_run [OF assms(1)] table_exists_run [OF probe]
    by (simp add: io_bind_def)
  with assms(2) have run: "?K (\<not> isl r1) ?w2 = (rb, wb)" by simp
  from extendsD [OF K run] obtain evs where "trace wb = trace ?w2 @ evs" by blast
  then have "trace wb = trace w @ Query ''BEGIN'' [] True # Query (testQuery t) [] (\<not> isl r1) # evs"
    by simp
  then show ?thesis by blast
qed










section \<open>Abort of a batch\<close>


lemma ingest_records_body_fails:
  assumes "client_query pg ''BEGIN'' [] (db w) = (Inr x, d1)"
      and "batch_body pg t first rest (w\<lparr>db := d1, trace := trace w @ [Query ''BEGIN'' [] True]\<rparr>)
             = (Inl e, w2)"
  shows "ingest_records pg t first rest w = (Inl e, w2)"
  unfolding ingest_records_body using assms by (simp add: io_bind_def query_def)

lemma ingest_records_commit:
  assumes "client_query pg ''BEGIN'' [] (db w) = (Inr x, d1)"
      and "batch_body pg t first rest (w\<lparr>db := d1, trace := trace w @ [Query ''BEGIN'' [] True]\<rparr>)
             = (Inr s, w2)"
      and "client_query pg ''COMMIT'' [] (db w2) = (rc, d3)"
  shows "ingest_records pg t first rest w
           = (case rc of Inl e \<Rightarrow> Inl e | Inr _ \<Rightarrow> Inr (summary_object t s),
              w2\<lparr>db := d3, trace := trace w2 @ [Query ''COMMIT'' [] (\<not> isl rc)]\<rparr>)"
  unfolding ingest_records_body using assms
  by (cases rc) (simp_all add: io_bind_def query_def io_return_def)






text \<open>The handler turns a failed ingestion into an error result that carries no summary.\<close>

lemma uploadCsv_failure:
  assumes "name \<noteq> []" and "data \<noteq> []"
      and "processCsvUpload pg (base64_decode pg data) (derivedTableName tableName name) w
             = (Inl e, w')"
  shows "uploadCsv pg (Some name) (Some data) tableName w
           = (Inr \<lparr>content = ErrorText ''Error processing CSV: '' e, isError = True\<rparr>, w')"
  using assms by (simp add: uploadCsv_def falsy_def io_defs)

text \<open>
  On a store with transactions the trace above means all or nothing: a batch that ends in
  an error leaves the committed state as it was before the call.
\<close>

lemma preservesI:
  assumes "\<And>w res w'. I (db w) \<Longrightarrow> m w = (res, w') \<Longrightarrow> I (db w')"
  shows "preserves m I"
  using assms unfolding preserves_def by blast

lemma preservesD:
  assumes "preserves m I" and "I (db w)" and "m w = (res, w')"
  shows "I (db w')"
  using assms unfolding preserves_def by blast

lemma preserves_return: "preserves (io_return x) I"
  by (rule preservesI) (simp add: io_return_def)

lemma preserves_throw: "preserves (io_throw e) I"
  by (rule preservesI) (simp add: io_throw_def)

lemma preserves_bind:
  assumes m: "preserves m I" and f: "\<And>x. preserves (f x) I"
  shows "preserves (io_bind m f) I"
proof (rule preservesI)
  fix w res w'
  assume i: "I (db w)" and run: "io_bind m f w = (res, w')"
  obtain r1 w1 where m1: "m w = (r1, w1)" by (cases "m w")
  from preservesD [OF m i m1] have i1: "I (db w1)" .
  show "I (db w')"
  proof (cases r1)
    case (Inl e)
    with run m1 have "w' = w1" by (simp add: io_bind_def)
    with i1 show ?thesis by simp
  next
    case (Inr x)
    with run m1 have "f x w1 = (res, w')" by (simp add: io_bind_def)
    from preservesD [OF f i1 this] show ?thesis .
  qed
qed

lemma preserves_catch:
  assumes m: "preserves m I" and h: "\<And>e. preserves (h e) I"
  shows "preserves (io_catch m h) I"
proof (rule preservesI)
  fix w res w'
  assume i: "I (db w)" and run: "io_catch m h w = (res, w')"
  obtain r1 w1 where m1: "m w = (r1, w1)" by (cases "m w")
  from preservesD [OF m i m1] have i1: "I (db w1)" .
  show "I (db w')"
  proof (cases r1)
    case (Inr x)
    with run m1 have "w' = w1" by (simp add: io_catch_def)
    with i1 show ?thesis by simp
  next
    case (Inl e)
    with run m1 have "h e w1 = (res, w')" by (simp add: io_catch_def)
    from preservesD [OF h i1 this] show ?thesis .
  qed
qed

lemma preserves_data_query:
  assumes "data_statement (Query q vs True)"
  shows "preserves (query (transactional step records) q vs)
           (open_on c0)"
proof (rule preservesI)
  fix w res w'
  assume i: "open_on c0 (db w)"
    and run: "query (transactional step records) q vs w = (res, w')"
  from i obtain x where d: "db w = (c0, Some x)" by (cases "db w") (auto simp add: open_on_def)
  from assms have q: "q \<noteq> ''BEGIN''" "q \<noteq> ''COMMIT''" "q \<noteq> ''ROLLBACK''"
    by (simp_all add: data_statement_def)
  obtain r x' where s: "step q vs x = (r, x')" by (cases "step q vs x")
  from q d s have "client_query (transactional step records) q vs (db w) = (r, (c0, Some x'))"
    by (simp add: transactional_def)
  with run have "db w' = (c0, Some x')" by (auto simp add: query_def)
  then show "open_on c0 (db w')" by (simp add: open_on_def)
qed

lemma preserves_process_row:
  "preserves (process_row (transactional step records) t r s)
     (open_on c0)"
  unfolding process_row_def lookup_row_def apply_row_def Let_def
  by (auto split: sum.splits bool.splits
      intro!: preserves_bind preserves_data_query preserves_return preserves_throw
        batch_text_no_control)

lemma preserves_process_rows:
  "preserves (process_rows (transactional step records) t rs s)
     (open_on c0)"
proof (induction rs arbitrary: s)
  case Nil
  have "process_rows (transactional step records) t [] s = io_return s"
    by (rule ext) (simp add: io_return_def)
  then show ?case by (simp add: preserves_return)
next
  case (Cons r rs)
  show ?case unfolding process_rows_bind
    by (intro preserves_bind preserves_process_row Cons.IH)
qed

lemma preserves_batch_body:
  "preserves (batch_body (transactional step records) t first rest)
     (open_on c0)"
  unfolding batch_body_def table_exists_def
  by (intro preserves_bind preserves_catch preserves_data_query preserves_return
        preserves_process_rows batch_text_no_control)
     (auto intro!: preserves_bind preserves_data_query preserves_return batch_text_no_control)

lemma failed_batch_leaves_committed:
  assumes "db w = (c0, None)"
      and "processCsvUpload (transactional step (first # rest)) csv t w = (Inl e, w')"
  shows "db w' = (c0, None)"
proof -
  let ?pg = "transactional step (first # rest)"
  let ?w1 = "w\<lparr>db := (c0, Some c0), trace := trace w @ [Query ''BEGIN'' [] True]\<rparr>"
  have conn: "pool_connect ?pg (db w) = None" by (simp add: transactional_def)
  have parse: "csv_parse ?pg csv = Inr (first # rest)" by (simp add: transactional_def)
  from assms(1) have bg: "client_query ?pg ''BEGIN'' [] (db w) = (Inr [], (c0, Some c0))"
    by (simp add: transactional_def)
  obtain rm w2 where body: "batch_body ?pg t first rest ?w1 = (rm, w2)"
    by (cases "batch_body ?pg t first rest ?w1")
  have "open_on c0 (db ?w1)" by (simp add: open_on_def)
  from preservesD [OF preserves_batch_body this body]
  obtain x where d2: "db w2 = (c0, Some x)" by (cases "db w2") (auto simp add: open_on_def)
  show ?thesis
  proof (cases rm)
    case (Inl e')
    from ingest_records_body_fails [OF bg] body Inl
    have ing: "ingest_records ?pg t first rest w = (Inl e', w2)" by simp
    from d2 have "client_query ?pg ''ROLLBACK'' [] (db w2) = (Inr [], (c0, None))"
      by (simp add: transactional_def)
    with conn parse ing assms(2) show ?thesis
      by (auto simp add: processCsvUpload_def io_defs)
  next
    case (Inr s)
    from d2 have commit: "client_query ?pg ''COMMIT'' [] (db w2) = (Inr [], (x, None))"
      by (simp add: transactional_def)
    from ingest_records_commit [OF bg _ commit] body Inr
    have "ingest_records ?pg t first rest w
            = (Inr (summary_object t s),
               w2\<lparr>db := (x, None), trace := trace w2 @ [Query ''COMMIT'' [] True]\<rparr>)"
      by simp
    with conn parse assms(2) show ?thesis
      by (auto simp add: processCsvUpload_def io_defs)
  qed
qed

section \<open>Summary accounting\<close>

text \<open>
  The accounting that does hold: each processed record moves exactly one counter by one,
  unless it carries an identifier that is found and has no other column.
\<close>

lemma apply_row_counts:
  assumes "apply_row pg t r b s w = (Inr s', w')"
  shows "created s' + updated s' + skipped s' = created s + updated s + skipped s + 1
       \<or> (has_id r = Inr True \<and> filter (\<lambda>col. col \<noteq> ''id'') (Object_keys r) = [] \<and> s' = s)"
proof (cases b)
  case False
  with assms show ?thesis
    by (auto simp add: apply_row_def io_defs split: prod.splits sum.splits)
next
  case True
  show ?thesis
  proof (cases "has_id r")
    case (Inl e)
    with True assms show ?thesis by (simp add: apply_row_def io_defs)
  next
    case (Inr useId)
    show ?thesis
    proof (cases useId)
      case False
      with True Inr assms show ?thesis by (auto simp add: apply_row_def io_defs)
    next
      case id: True
      show ?thesis
      proof (cases "filter (\<lambda>col. col \<noteq> ''id'') (Object_keys r) = []")
        case True
        with \<open>b\<close> Inr id assms show ?thesis by (auto simp add: apply_row_def io_defs)
      next
        case False
        with \<open>b\<close> Inr id assms show ?thesis
          by (auto simp add: apply_row_def io_defs Let_def split: prod.splits sum.splits)
      qed
    qed
  qed
qed

lemma io_bind_Inr:
  assumes "io_bind m f w = (Inr y, w')"
  obtains x w1 where "m w = (Inr x, w1)" and "f x w1 = (Inr y, w')"
  using assms by (auto simp add: io_bind_def split: prod.splits sum.splits)

lemma process_row_counts:
  assumes "process_row pg t r s w = (Inr s', w')"
  shows "created s' + updated s' + skipped s' = created s + updated s + skipped s + 1
       \<or> (has_id r = Inr True \<and> filter (\<lambda>col. col \<noteq> ''id'') (Object_keys r) = [] \<and> s' = s)"
proof -
  from assms obtain b w1 where "apply_row pg t r b s w1 = (Inr s', w')"
    unfolding process_row_def by (rule io_bind_Inr)
  then show ?thesis by (rule apply_row_counts)
qed

lemma process_rows_counts:
  assumes "process_rows pg t rs s w = (Inr s', w')"
  shows "created s' + updated s' + skipped s' \<le> created s + updated s + skipped s + length rs"
    and "\<forall>r \<in> set rs. has_id r = Inr True \<longrightarrow> filter (\<lambda>col. col \<noteq> ''id'') (Object_keys r) \<noteq> []
         \<Longrightarrow> created s' + updated s' + skipped s' = created s + updated s + skipped s + length rs"
  using assms
proof (induction rs arbitrary: s w)
  case Nil
  { case 1 then show ?case by simp }
  { case 2 then show ?case by simp }
next
  case (Cons r rs)
  { case 1
    from 1 obtain s1 w1 where r: "process_row pg t r s w = (Inr s1, w1)"
      and rs: "process_rows pg t rs s1 w1 = (Inr s', w')"
      by (auto split: prod.splits sum.splits)
    from Cons.IH(1) [OF rs] process_row_counts [OF r] show ?case by auto }
  { case 2
    from 2(2) obtain s1 w1 where r: "process_row pg t r s w = (Inr s1, w1)"
      and rs: "process_rows pg t rs s1 w1 = (Inr s', w')"
      by (auto split: prod.splits sum.splits)
    from 2(1) have "\<forall>r \<in> set rs. has_id r = Inr True \<longrightarrow> filter (\<lambda>col. col \<noteq> ''id'') (Object_keys r) \<noteq> []"
      by simp
    from Cons.IH(2) [OF this rs] process_row_counts [OF r] 2(1) show ?case by auto }
qed

lemma ingest_records_Inr:
  assumes "ingest_records pg t first rest w = (Inr obj, wb)"
  obtains s' w0 w1 where "process_rows pg t (first # rest) no_rows w0 = (Inr s', w1)"
    and "obj = summary_object t s'"
proof -
  from assms obtain x1 w1 where
    "io_bind (batch_body pg t first rest) (\<lambda>s.
     io_bind (query pg ''COMMIT'' []) (\<lambda>_.
     io_return (summary_object t s))) w1 = (Inr obj, wb)"
    unfolding ingest_records_body by (rule io_bind_Inr)
  then obtain s4 w4 where body: "batch_body pg t first rest w1 = (Inr s4, w4)"
    and commit: "io_bind (query pg ''COMMIT'' []) (\<lambda>_. io_return (summary_object t s4)) w4
                   = (Inr obj, wb)"
    by (rule io_bind_Inr)
  from commit obtain w5 where "io_return (summary_object t s4) w5 = (Inr obj, wb)"
    by (rule io_bind_Inr)
  then have obj: "obj = summary_object t s4" by (simp add: io_return_def)
  from body obtain x2 w2 where
    "io_bind (if \<not> x2
              then io_bind (query pg (createTableSQL t (Object_keys first)) [])
                     (\<lambda>_. io_return ())
              else io_return ()) (\<lambda>_.
     process_rows pg t (first # rest) no_rows) w2 = (Inr s4, w4)"
    unfolding batch_body_def by (rule io_bind_Inr)
  then obtain w3 where "process_rows pg t (first # rest) no_rows w3 = (Inr s4, w4)"
    by (rule io_bind_Inr)
  with obj that show thesis by blast
qed

lemma processCsvUpload_Inr:
  assumes "processCsvUpload pg csv t w = (Inr y, w')"
      and "csv_parse pg csv = Inr (first # rest)"
  obtains wb where "ingest_records pg t first rest w = (Inr y, wb)"
proof -
  have conn: "pool_connect pg (db w) = None"
  proof (cases "pool_connect pg (db w)")
    case (Some e)
    with assms(1) show ?thesis by (simp add: processCsvUpload_def io_defs)
  qed
  obtain rb wb where body: "ingest_records pg t first rest w = (rb, wb)"
    by (cases "ingest_records pg t first rest w")
  from processCsvUpload_ingest [OF conn assms(2) body assms(1)]
  have "rb = Inr y" by (cases rb) simp_all
  with body that show thesis by blast
qed

lemma summary_accounting:
  assumes "processCsvUpload pg csv t w = (Inr obj, w')"
      and "csv_parse pg csv = Inr rs"
      and "(t', s') \<in> set obj"
  shows "created s' + updated s' + skipped s' \<le> length rs"
    and "\<forall>r \<in> set rs. has_id r = Inr True \<longrightarrow> filter (\<lambda>col. col \<noteq> ''id'') (Object_keys r) \<noteq> []
         \<Longrightarrow> created s' + updated s' + skipped s' = length rs"
proof -
  have "\<exists>w0 w1. process_rows pg t rs no_rows w0 = (Inr s', w1)"
  proof (cases rs)
    case Nil
    with assms(1,2) have "obj = [(t, no_rows)]"
      by (auto simp add: processCsvUpload_def io_defs split: option.splits prod.splits sum.splits)
    with assms(3) have "s' = no_rows" by simp
    with Nil show ?thesis by simp
  next
    case (Cons first rest)
    with assms(2) have "csv_parse pg csv = Inr (first # rest)" by simp
    from processCsvUpload_Inr [OF assms(1) this] obtain wb
      where "ingest_records pg t first rest w = (Inr obj, wb)" .
    from ingest_records_Inr [OF this] obtain s w0 w1
      where run: "process_rows pg t (first # rest) no_rows w0 = (Inr s, w1)"
        and obj: "obj = summary_object t s" .
    from obj assms(3) have "s' = s" by (simp add: summary_object_def split: if_splits)
    with run Cons show ?thesis by blast
  qed
  then obtain w0 w1 where run: "process_rows pg t rs no_rows w0 = (Inr s', w1)" by blast
  from process_rows_counts(1) [OF run]
  show "created s' + updated s' + skipped s' \<le> length rs" by (simp add: no_rows_def)
  assume "\<forall>r \<in> set rs. has_id r = Inr True \<longrightarrow> filter (\<lambda>col. col \<noteq> ''id'') (Object_keys r) \<noteq> []"
  from process_rows_counts(2) [OF run this]
  show "created s' + updated s' + skipped s' = length rs" by (simp add: no_rows_def)
qed

text \<open>
  Claim C1. After a committed batch of \<open>n\<close> records the three counters are to add up to
  \<open>n\<close>, also for a record whose only field is the identifier. Table \<^verbatim>\<open>t\<close> holds a row
  with identifier 1 and the batch is the one record \<^verbatim>\<open>{id: "1"}\<close>: the lookup finds the row,
  there is no column to update, no counter moves, and the committed summary adds up to 0.
\<close>

theorem id_only_record_not_counted:
  \<open>processCsvUpload (replay [[(''id'', Some ''1'')]]) ''id\<newline>1\<newline>'' ''t''
     (start [Inr [], Inr [], Inr [[(''id'', Some ''1'')]], Inr []])
   = (Inr [(''t'', \<lparr>created = 0, updated = 0, skipped = 0\<rparr>)],
      \<lparr>db = [],
       trace = [Query ''BEGIN'' [] True,
                Query ''SELECT 1 FROM "t" LIMIT 1'' [] True,
                Query ''SELECT * FROM "t" WHERE "id" = $1'' [Some ''1''] True,
                Query ''COMMIT'' [] True,
                Release]\<rparr>)\<close>
  by (simp add: io_defs ingest_defs stmt_defs summary_object_def replay_def start_def)

section \<open>Values and statement text\<close>

text \<open>
  The half of the claim that holds: the text of every statement sent for a record is built
  from the table name and the record's column names alone, so no value can be part of it.
\<close>

lemma row_statements_from_names:
  "extends (process_row pg t r s)
     (\<lambda>_ evs. \<forall>ev \<in> set evs. \<exists>q vs b. ev = Query q vs b \<and>
        q \<in> {selectByIdQuery t,
              selectQuery t (Object_keys r),
              updateQuery t (filter (\<lambda>col. col \<noteq> ''id'') (Object_keys r)),
              insertQuery t (Object_keys r)})"
  unfolding process_row_def lookup_row_def apply_row_def Let_def
  by (auto split: sum.splits bool.splits
      intro!: each_event_bind each_event_query each_event_return each_event_throw)

text \<open>
  Claim C8. Every column value is to reach a statement through the bound values only, each
  bound to a placeholder of the statement text. The values are never written into the text,
  but the generated lookup, insert and update write the bare position number where the
  placeholder should stand: for the record \<^verbatim>\<open>{name: "x"}\<close> the lookup compares the column
  with the number 1 and the insert stores the number 1, with the value bound to nothing; the
  update numbers its columns the same way and only its identifier has a placeholder.
\<close>

theorem values_bound_to_no_placeholder:
  \<open>process_row (replay []) ''t'' [(''name'', Some ''x'')] no_rows (start [Inr [], Inr []])
   = (Inr \<lparr>created = 1, updated = 0, skipped = 0\<rparr>,
      \<lparr>db = [],
       trace = [Query ''SELECT * FROM "t" WHERE "name" = 1'' [Some ''x''] True,
                Query ''INSERT INTO "t" ("name") VALUES (1)'' [Some ''x''] True]\<rparr>)
   \<and> updateQuery ''t'' [''name'', ''city'']
       = ''UPDATE "t" SET "name" = 2, "city" = 3 WHERE "id" = $1''\<close>
  by (simp add: io_defs ingest_defs stmt_defs replay_def start_def)

section \<open>Identifiers in statement text\<close>









section \<open>The record without fields\<close>




section \<open>Identical records without identifier\<close>

text \<open>
  What the loop makes of two identical records without identifier when the store answers
  their lookups: both send the same all-columns lookup with the same values; if the first
  finds no row the record is inserted, and if the second then finds a row the record is
  skipped.
\<close>

lemma identical_records_when_lookups_answer:
  assumes "has_id r = Inr False"
      and "client_query pg (selectQuery t (Object_keys r)) (Object_values r) (db w) = (Inr [], d1)"
      and "client_query pg (insertQuery t (Object_keys r)) (Object_values r) d1 = (Inr x, d2)"
      and "client_query pg (selectQuery t (Object_keys r)) (Object_values r) d2
             = (Inr (m # ms), d3)"
  shows "process_rows pg t [r, r] s w =
           (Inr (s\<lparr>created := created s + 1, skipped := skipped s + 1\<rparr>),
            \<lparr>db = d3,
             trace = trace w @
               [Query (selectQuery t (Object_keys r)) (Object_values r) True,
                Query (insertQuery t (Object_keys r)) (Object_values r) True,
                Query (selectQuery t (Object_keys r)) (Object_values r) True]\<rparr>)"
  using assms
  by (simp add: process_row_def lookup_row_def apply_row_def io_defs)

text \<open>
  Claim C2. Of two identical records without identifier the first is to be created and the
  second skipped. The lookup that decides it is sent with the record's values bound and a
  text that holds no placeholder for them, only the position numbers. A store that checks
  the values against the placeholders refuses it: with table \<^verbatim>\<open>t\<close> present and empty, the
  batch of the two records is rolled back at its first lookup and the call ends in an error;
  nothing is created and nothing is skipped.
\<close>

theorem identical_records_lookup_refused:
  \<open>processCsvUpload
     (bind_checking_store [[(''name'', Some ''Ann''), (''city'', Some ''Oslo'')],
                           [(''name'', Some ''Ann''), (''city'', Some ''Oslo'')]])
     ''name,city\<newline>Ann,Oslo\<newline>Ann,Oslo\<newline>'' ''t'' (start 0)
   = (Inl (PgError ''bind message supplies values the prepared statement does not require''),
      \<lparr>db = 3,
       trace = [Query ''BEGIN'' [] True,
                Query ''SELECT 1 FROM "t" LIMIT 1'' [] True,
                Query ''SELECT * FROM "t" WHERE "name" = 1 AND "city" = 2''
                  [Some ''Ann'', Some ''Oslo''] False,
                Query ''ROLLBACK'' [] True,
                Release]\<rparr>)\<close>
  by (simp add: io_defs ingest_defs stmt_defs bind_checking_store_def start_def)

end
